theory Spec2Isabelle
  imports Main "HOL-Library.Sublist"
begin

section \<open>Strings\<close>

text \<open>
  A Python \<open>str\<close> is modelled as a \<open>string\<close>, read as its UTF-8 bytes.  The functions of
  this development only compare against ASCII literals, and \<open>str.lower\<close> maps no character
  outside ASCII to one of the ASCII characters these literals are made of, so \<open>lower\<close>
  below maps the letters \<open>A\<close> to \<open>Z\<close> to \<open>a\<close> to \<open>z\<close> and leaves every other byte alone.
\<close>

definition ascii_uppercase :: string where
  "ascii_uppercase = ''ABCDEFGHIJKLMNOPQRSTUVWXYZ''"

definition ascii_lowercase :: string where
  "ascii_lowercase = ''abcdefghijklmnopqrstuvwxyz''"

definition lower_char :: "char \<Rightarrow> char" where
  "lower_char c =
     (case map_of (zip ascii_uppercase ascii_lowercase) c of
        Some l \<Rightarrow> l
      | None \<Rightarrow> c)"

definition lower :: "string \<Rightarrow> string" where
  "lower s = map lower_char s"

definition startswith :: "string \<Rightarrow> string \<Rightarrow> bool" where
  "startswith s p = (take (length p) s = p)"

definition endswith :: "string \<Rightarrow> string \<Rightarrow> bool" where
  "endswith s e = (length e \<le> length s \<and> drop (length s - length e) s = e)"

text \<open>
  \<open>s.split(sep, 1)\<close> for a separator of one character: the text before the first
  separator and the text after it, or the whole string alone when there is none.
\<close>

definition split1 :: "char \<Rightarrow> string \<Rightarrow> string list" where
  "split1 sep s =
     (case dropWhile (\<lambda>c. c \<noteq> sep) s of
        [] \<Rightarrow> [s]
      | _ # rest \<Rightarrow> [takeWhile (\<lambda>c. c \<noteq> sep) s, rest])"

section \<open>The image-URL predicate\<close>

definition image_exts :: "string list" where
  "image_exts = [''.png'', ''.jpg'', ''.jpeg'', ''.webp'']"

definition looks_like_image :: "string \<Rightarrow> bool" where
  "looks_like_image url =
     (let lowered = lower url
      in startswith lowered ''http'' \<and>
         list_ex (\<lambda>ext. endswith (hd (split1 (CHR ''?'') lowered)) ext) image_exts)"

section \<open>JSON values\<close>

text \<open>
  What \<open>json.loads\<close> returns: \<open>str\<close>, \<open>int\<close> or \<open>float\<close>, \<open>bool\<close>, \<open>None\<close>, \<open>dict\<close> and
  \<open>list\<close>.  A \<open>dict\<close> keeps its insertion order, so an object is the list of its items; the
  keys of a \<open>dict\<close> are distinct, which no property below depends on.
  The walk never looks inside a number; its representation is the type parameter.
\<close>

datatype 'n json =
    JString string
  | JNumber 'n
  | JBool bool
  | JNull
  | JObject "(string \<times> 'n json) list"
  | JArray "'n json list"

text \<open>\<open>value.get("url")\<close>: the value stored under the key, \<open>None\<close> when it is absent.\<close>

definition dict_get :: "(string \<times> 'n json) list \<Rightarrow> string \<Rightarrow> 'n json option" where
  "dict_get items k = map_of items k"

section \<open>The extractor\<close>

text \<open>
  \<open>walk\<close> appends to the list \<open>urls\<close> of the enclosing function; the model passes the list
  in and returns it updated.  The two \<open>for\<close> loops are \<open>walk_values\<close> (over
  \<open>value.values()\<close>) and \<open>walk_list\<close> (over the elements of a list).
  This is the function as it runs while the interpreter's recursion limit is not reached;
  \<open>walk_d\<close> below is the same function with the limit.
\<close>

fun walk :: "'n json \<Rightarrow> string list \<Rightarrow> string list"
  and walk_values :: "(string \<times> 'n json) list \<Rightarrow> string list \<Rightarrow> string list"
  and walk_list :: "'n json list \<Rightarrow> string list \<Rightarrow> string list"
where
  "walk (JString s) urls = (if looks_like_image s then urls @ [s] else urls)"
| "walk (JObject items) urls =
     walk_values items
       (case dict_get items ''url'' of
          Some (JString url_value) \<Rightarrow>
            if looks_like_image url_value then urls @ [url_value] else urls
        | _ \<Rightarrow> urls)"
| "walk (JArray xs) urls = walk_list xs urls"
| "walk (JNumber n) urls = urls"
| "walk (JBool b) urls = urls"
| "walk JNull urls = urls"
| "walk_values [] urls = urls"
| "walk_values (kv # items) urls = walk_values items (walk (snd kv) urls)"
| "walk_list [] urls = urls"
| "walk_list (x # xs) urls = walk_list xs (walk x urls)"

text \<open>The second pass: the loop over \<open>urls\<close> with the set \<open>seen\<close> and the list \<open>deduped\<close>.\<close>

fun dedup_loop :: "string list \<Rightarrow> string set \<Rightarrow> string list \<Rightarrow> string list" where
  "dedup_loop [] seen deduped = deduped"
| "dedup_loop (url # urls) seen deduped =
     (if url \<in> seen then dedup_loop urls seen deduped
      else dedup_loop urls (insert url seen) (deduped @ [url]))"

definition extract_image_urls :: "'n json \<Rightarrow> string list" where
  "extract_image_urls payload = dedup_loop (walk payload []) {} []"

section \<open>Notions the properties are stated with\<close>

text \<open>
  The predicate in the words of its description: after lower-casing, the string begins
  with \<open>http\<close>, and its part before the first \<open>?\<close> ends with one of the four extensions.
\<close>

definition looks_like_image_spec :: "string \<Rightarrow> bool" where
  "looks_like_image_spec s =
     (let l = lower s; path = takeWhile (\<lambda>c. c \<noteq> CHR ''?'') l
      in prefix ''http'' l \<and>
         (suffix ''.png'' path \<or> suffix ''.jpg'' path \<or>
          suffix ''.jpeg'' path \<or> suffix ''.webp'' path))"

text \<open>The string nodes of a tree, in the order of the walk; object keys are not nodes.\<close>

fun json_strings :: "'n json \<Rightarrow> string list"
  and json_strings_values :: "(string \<times> 'n json) list \<Rightarrow> string list"
  and json_strings_list :: "'n json list \<Rightarrow> string list"
where
  "json_strings (JString s) = [s]"
| "json_strings (JObject items) = json_strings_values items"
| "json_strings (JArray xs) = json_strings_list xs"
| "json_strings (JNumber n) = []"
| "json_strings (JBool b) = []"
| "json_strings JNull = []"
| "json_strings_values [] = []"
| "json_strings_values (kv # items) = json_strings (snd kv) @ json_strings_values items"
| "json_strings_list [] = []"
| "json_strings_list (x # xs) = json_strings x @ json_strings_list xs"

text \<open>The keys of all objects of a tree.\<close>

fun json_keys :: "'n json \<Rightarrow> string list"
  and json_keys_values :: "(string \<times> 'n json) list \<Rightarrow> string list"
  and json_keys_list :: "'n json list \<Rightarrow> string list"
where
  "json_keys (JString s) = []"
| "json_keys (JObject items) = json_keys_values items"
| "json_keys (JArray xs) = json_keys_list xs"
| "json_keys (JNumber n) = []"
| "json_keys (JBool b) = []"
| "json_keys JNull = []"
| "json_keys_values [] = []"
| "json_keys_values (kv # items) = fst kv # json_keys (snd kv) @ json_keys_values items"
| "json_keys_list [] = []"
| "json_keys_list (x # xs) = json_keys x @ json_keys_list xs"

text \<open>The nodes of a tree: the value itself and every value nested in it.\<close>

fun subvalues :: "'n json \<Rightarrow> 'n json list"
  and subvalues_values :: "(string \<times> 'n json) list \<Rightarrow> 'n json list"
  and subvalues_list :: "'n json list \<Rightarrow> 'n json list"
where
  "subvalues (JString s) = [JString s]"
| "subvalues (JObject items) = JObject items # subvalues_values items"
| "subvalues (JArray xs) = JArray xs # subvalues_list xs"
| "subvalues (JNumber n) = [JNumber n]"
| "subvalues (JBool b) = [JBool b]"
| "subvalues JNull = [JNull]"
| "subvalues_values [] = []"
| "subvalues_values (kv # items) = subvalues (snd kv) @ subvalues_values items"
| "subvalues_list [] = []"
| "subvalues_list (x # xs) = subvalues x @ subvalues_list xs"








text \<open>
  What one call of \<open>walk\<close> on an object records before it descends, and the candidates of
  a whole tree as a list: the walk appends exactly these to \<open>urls\<close>.
\<close>

definition url_field :: "(string \<times> 'n json) list \<Rightarrow> string list" where
  "url_field items =
     (case dict_get items ''url'' of
        Some (JString url_value) \<Rightarrow> if looks_like_image url_value then [url_value] else []
      | _ \<Rightarrow> [])"

fun candidates :: "'n json \<Rightarrow> string list"
  and candidates_values :: "(string \<times> 'n json) list \<Rightarrow> string list"
  and candidates_list :: "'n json list \<Rightarrow> string list"
where
  "candidates (JString s) = (if looks_like_image s then [s] else [])"
| "candidates (JObject items) = url_field items @ candidates_values items"
| "candidates (JArray xs) = candidates_list xs"
| "candidates (JNumber n) = []"
| "candidates (JBool b) = []"
| "candidates JNull = []"
| "candidates_values [] = []"
| "candidates_values (kv # items) = candidates (snd kv) @ candidates_values items"
| "candidates_list [] = []"
| "candidates_list (x # xs) = candidates x @ candidates_list xs"

text \<open>What the second pass adds to \<open>deduped\<close>: the elements not seen before, in order.\<close>

fun keep_new :: "'a list \<Rightarrow> 'a set \<Rightarrow> 'a list" where
  "keep_new [] seen = []"
| "keep_new (x # xs) seen =
     (if x \<in> seen then keep_new xs seen else x # keep_new xs (insert x seen))"

section \<open>Paths and output names\<close>

text \<open>
  A \<open>pathlib\<close> path of the POSIX flavour: its root (\<open>''\<close>, \<open>/\<close> or \<open>//\<close>) and its components.
  \<open>Path_of_string\<close> is the constructor \<open>Path(s)\<close>: the text is cut at every \<open>/\<close>, and empty
  components and \<open>.\<close> are dropped.
\<close>

datatype path = Path (root: string) (parts: "string list")

fun split_acc :: "char \<Rightarrow> string \<Rightarrow> string \<Rightarrow> string list" where
  "split_acc sep acc [] = [rev acc]"
| "split_acc sep acc (c # cs) =
     (if c = sep then rev acc # split_acc sep [] cs else split_acc sep (c # acc) cs)"

text \<open>\<open>s.split(sep)\<close> for a separator of one character.\<close>

definition split_sep :: "char \<Rightarrow> string \<Rightarrow> string list" where
  "split_sep sep s = split_acc sep [] s"

definition splitroot :: "string \<Rightarrow> string \<times> string" where
  "splitroot part =
     (case part of
        [] \<Rightarrow> ([], part)
      | c # _ \<Rightarrow>
          if c = CHR ''/'' then
            (let stripped_part = dropWhile (\<lambda>x. x = CHR ''/'') part
             in if int (length part) - int (length stripped_part) = 2
                then (''//'', stripped_part) else (''/'', stripped_part))
          else ([], part))"

definition Path_of_string :: "string \<Rightarrow> path" where
  "Path_of_string s =
     (case splitroot s of
        (rt, rel) \<Rightarrow> Path rt (filter (\<lambda>x. x \<noteq> [] \<and> x \<noteq> ''.'') (split_sep (CHR ''/'') rel)))"

text \<open>\<open>p.name\<close>: the final component, empty when there is none.\<close>

definition name :: "path \<Rightarrow> string" where
  "name p = (if parts p = [] then [] else last (parts p))"

text \<open>\<open>s.rfind(c)\<close>: the last index of the character, \<open>-1\<close> when it does not occur.\<close>

definition rfind :: "string \<Rightarrow> char \<Rightarrow> int" where
  "rfind s c =
     (if c \<in> set s then int (length s) - 1 - int (length (takeWhile (\<lambda>x. x \<noteq> c) (rev s)))
      else - 1)"

text \<open>\<open>p.stem\<close>: the final component without its last suffix.\<close>

definition stem :: "path \<Rightarrow> string" where
  "stem p =
     (let nm = name p; i = rfind nm (CHR ''.'')
      in if 0 < i \<and> i < int (length nm) - 1 then take (nat i) nm else nm)"

text \<open>
  \<open>p / s\<close> for a string \<open>s\<close>: the components of \<open>s\<close> are appended, and a rooted \<open>s\<close>
  replaces \<open>p\<close>.
\<close>

definition path_join :: "path \<Rightarrow> string \<Rightarrow> path" where
  "path_join p s =
     (let q = Path_of_string s
      in if root q \<noteq> [] then q else Path (root p) (parts p @ parts q))"

text \<open>The decimal text of an integer, as an f-string formats it.\<close>

function str_nat :: "nat \<Rightarrow> string" where
  "str_nat n =
     (if n < 10 then [''0123456789'' ! n]
      else str_nat (n div 10) @ [''0123456789'' ! (n mod 10)])"
  by pat_completeness auto
termination
  by (relation "measure (\<lambda>n. n)") auto

declare str_nat.simps [simp del]

definition str_int :: "int \<Rightarrow> string" where
  "str_int i = (if i < 0 then CHR ''-'' # str_nat (nat (- i)) else str_nat (nat i))"

section \<open>The download tool\<close>

text \<open>
  Every exception of the model is an instance of \<open>Exception\<close>, which is what the handlers
  of \<open>main\<close> catch; \<open>ValueError\<close> is singled out because \<open>urlsplit\<close> raises it.
\<close>

datatype exc = ValueError string | Exception string

text \<open>
  What the tool calls outside this repository, as functions of a file-system state \<open>'fs\<close>:
  \<^item> \<open>urlsplit_path url\<close> is \<open>urlsplit(url).path\<close>, or the exception \<open>urlsplit\<close> raises;
  \<^item> \<open>path_exists fs p\<close> is \<open>p.exists()\<close>;
  \<^item> \<open>read_metadata fs p\<close> is \<open>json.loads(p.read_text(encoding="utf-8"))\<close>, or the
    exception of either call;
  \<^item> \<open>download_image url destination headers timeout fs\<close> is the function of that name,
    whose body is library calls only (\<open>mkdir\<close>, \<open>requests.get\<close>, \<open>raise_for_status\<close>,
    \<open>open\<close>, \<open>write\<close>): the exception it raises, if any, and the file system it leaves.
\<close>

record ('fs, 'n) env =
  urlsplit_path :: "string \<Rightarrow> exc + string"
  path_exists :: "'fs \<Rightarrow> path \<Rightarrow> bool"
  read_metadata :: "'fs \<Rightarrow> path \<Rightarrow> exc + 'n json"
  download_image :: "string \<Rightarrow> path \<Rightarrow> (string \<times> string) list \<Rightarrow> int \<Rightarrow> 'fs \<Rightarrow> exc option \<times> 'fs"

text \<open>
  \<open>build_output_path\<close>.  An exception of \<open>urlsplit\<close> leaves the function, so the result is
  the exception or the path.
\<close>

definition build_output_path ::
  "('fs, 'n) env \<Rightarrow> 'fs \<Rightarrow> path \<Rightarrow> path \<Rightarrow> string \<Rightarrow> int \<Rightarrow> exc + path" where
  "build_output_path E fs output_dir metadata_file url index =
     (case urlsplit_path E url of
        Inl e \<Rightarrow> Inl e
      | Inr url_path \<Rightarrow>
          (let nm = name (Path_of_string url_path);
               nm = (if nm = [] then stem metadata_file @ ''_'' @ str_int index @ ''.png'' else nm);
               destination = path_join output_dir nm
           in if path_exists E fs destination
              then Inr (path_join output_dir
                          (stem metadata_file @ ''_'' @ str_int index @ ''_'' @ nm))
              else Inr destination))"

text \<open>The lines \<open>main\<close> prints inside its loop.\<close>

datatype event =
    Failed_to_read_metadata path exc
  | No_image_URLs_found path
  | Failed_to_download string path exc
  | Saved string path

text \<open>\<open>urls[:n]\<close>: a negative \<open>n\<close> counts from the end.\<close>

definition slice_to :: "'a list \<Rightarrow> int \<Rightarrow> 'a list" where
  "slice_to xs n = (if n < 0 then take (nat (int (length xs) + n)) xs else take (nat n) xs)"

text \<open>\<open>enumerate(urls, start=1)\<close>.\<close>

definition enumerate1 :: "'a list \<Rightarrow> (int \<times> 'a) list" where
  "enumerate1 xs = zip (map int [1..<Suc (length xs)]) xs"

record args =
  output_dir :: path
  timeout :: int
  max_per_file :: "int option"

text \<open>
  The inner loop of \<open>main\<close> over the numbered URLs of one metadata file.  The state is the
  file system and the lines printed so far; the first component of the result is the
  exception that ends the program, if one does.  The call of \<open>build_output_path\<close> stands
  before the \<open>try\<close>, so its exception is not caught.
\<close>

fun download_urls ::
  "('fs, 'n) env \<Rightarrow> args \<Rightarrow> (string \<times> string) list \<Rightarrow> path \<Rightarrow> (int \<times> string) list \<Rightarrow>
     'fs \<times> event list \<Rightarrow> exc option \<times> 'fs \<times> event list" where
  "download_urls E a headers metadata_path [] st = (None, st)"
| "download_urls E a headers metadata_path ((index, url) # rest) (fs, out) =
     (case build_output_path E fs (output_dir a) metadata_path url index of
        Inl e \<Rightarrow> (Some e, fs, out)
      | Inr destination \<Rightarrow>
          (case download_image E url destination headers (timeout a) fs of
             (Some e, fs') \<Rightarrow>
               download_urls E a headers metadata_path rest
                 (fs', out @ [Failed_to_download url metadata_path e])
           | (None, fs') \<Rightarrow>
               download_urls E a headers metadata_path rest
                 (fs', out @ [Saved url destination])))"

text \<open>The outer loop of \<open>main\<close> over the metadata files.\<close>

fun main_loop ::
  "('fs, 'n) env \<Rightarrow> args \<Rightarrow> (string \<times> string) list \<Rightarrow> path list \<Rightarrow>
     'fs \<times> event list \<Rightarrow> exc option \<times> 'fs \<times> event list" where
  "main_loop E a headers [] st = (None, st)"
| "main_loop E a headers (metadata_path # rest) (fs, out) =
     (case read_metadata E fs metadata_path of
        Inl e \<Rightarrow> main_loop E a headers rest (fs, out @ [Failed_to_read_metadata metadata_path e])
      | Inr payload \<Rightarrow>
          (let urls = extract_image_urls payload
           in if urls = [] then
                main_loop E a headers rest (fs, out @ [No_image_URLs_found metadata_path])
              else
                (let urls = (case max_per_file a of None \<Rightarrow> urls | Some n \<Rightarrow> slice_to urls n)
                 in case download_urls E a headers metadata_path (enumerate1 urls) (fs, out) of
                      (Some e, st') \<Rightarrow> (Some e, st')
                    | (None, st') \<Rightarrow> main_loop E a headers rest st')))"

text \<open>The name \<open>build_output_path\<close> tries first, and the name it falls back to.\<close>

definition output_name :: "path \<Rightarrow> string \<Rightarrow> int \<Rightarrow> string" where
  "output_name metadata_file url_path index =
     (if name (Path_of_string url_path) = []
      then stem metadata_file @ ''_'' @ str_int index @ ''.png''
      else name (Path_of_string url_path))"

definition alternative_name :: "path \<Rightarrow> int \<Rightarrow> string \<Rightarrow> string" where
  "alternative_name metadata_file index nm =
     stem metadata_file @ ''_'' @ str_int index @ ''_'' @ nm"

section \<open>An environment for the examples\<close>

text \<open>
  The steps of \<open>urlsplit\<close> that decide the path of a URL: leading control characters and
  spaces are stripped, tab, carriage return and line feed are removed, a scheme is cut
  off, a host after \<open>//\<close> is cut off up to the next \<open>/\<close>, \<open>?\<close> or \<open>#\<close>, and the fragment
  and the query are dropped.  A host with one bracket and not the other is refused with
  \<open>ValueError\<close>.  The further checks \<open>urlsplit\<close> makes of a host in brackets and of a host
  outside ASCII are not part of it; the properties of the tool are stated for any
  function in the place of \<open>urlsplit_path\<close>, and this one serves the examples.
\<close>

definition find_char :: "string \<Rightarrow> char \<Rightarrow> int" where
  "find_char s c = (if c \<in> set s then int (length (takeWhile (\<lambda>x. x \<noteq> c) s)) else - 1)"

definition scheme_chars :: string where
  "scheme_chars = ascii_lowercase @ ascii_uppercase @ ''0123456789'' @ ''+-.''"

definition c0_control_or_space :: "char \<Rightarrow> bool" where
  "c0_control_or_space c = ((of_char c :: nat) \<le> 32)"

definition urlsplit_path_steps :: "string \<Rightarrow> exc + string" where
  "urlsplit_path_steps url0 =
     (let url = dropWhile c0_control_or_space url0;
          url = filter (\<lambda>c. c \<notin> set [CHR 0x09, CHR 0x0D, CHR 0x0A]) url;
          i = find_char url (CHR '':'');
          url = (if 0 < i \<and> hd url \<in> set (ascii_lowercase @ ascii_uppercase) \<and>
                    list_all (\<lambda>c. c \<in> set scheme_chars) (take (nat i) url)
                 then drop (nat i + 1) url else url);
          delim = (\<lambda>c. c \<in> set ''/?#'');
          netloc = (if take 2 url = ''//'' then takeWhile (\<lambda>c. \<not> delim c) (drop 2 url) else []);
          url = (if take 2 url = ''//'' then dropWhile (\<lambda>c. \<not> delim c) (drop 2 url) else url)
      in if (CHR ''['' \<in> set netloc \<and> CHR '']'' \<notin> set netloc) \<or>
            (CHR '']'' \<in> set netloc \<and> CHR ''['' \<notin> set netloc)
         then Inl (ValueError ''Invalid IPv6 URL'')
         else Inr (takeWhile (\<lambda>c. c \<noteq> CHR ''?'') (takeWhile (\<lambda>c. c \<noteq> CHR ''#'') url)))"

text \<open>
  A file system that is the list of the paths that exist, metadata files given by a
  table (\<open>None\<close> for a file that is not JSON), and a download that fails for the URLs of a
  list and creates the destination otherwise.
\<close>

definition example_env ::
  "(path \<times> int json option) list \<Rightarrow> string list \<Rightarrow> (path list, int) env" where
  "example_env files unreachable =
     \<lparr> urlsplit_path = urlsplit_path_steps,
       path_exists = (\<lambda>fs p. p \<in> set fs),
       read_metadata = (\<lambda>fs p.
          case map_of files p of
            None \<Rightarrow> Inl (Exception ''FileNotFoundError'')
          | Some None \<Rightarrow> Inl (Exception ''JSONDecodeError'')
          | Some (Some payload) \<Rightarrow> Inr payload),
       download_image = (\<lambda>url destination headers timeout fs.
          if url \<in> set unreachable then (Some (Exception ''ConnectionError''), fs)
          else (None, destination # fs)) \<rparr>"

section \<open>Facts about the model\<close>

subsection \<open>The string functions\<close>

lemma startswith_prefix: "startswith s p = prefix p s"
  unfolding startswith_def by (metis append_eq_conv_conj prefix_def append_take_drop_id)

lemma endswith_suffix: "endswith s e = suffix e s"
  unfolding endswith_def suffix_def
  by (metis append_eq_conv_conj append_take_drop_id diff_add_inverse2 le_add2 length_append length_drop)

lemma split1_nonempty: "split1 sep s \<noteq> []"
  by (simp add: split1_def split: list.splits)

lemma hd_split1: "hd (split1 sep s) = takeWhile (\<lambda>c. c \<noteq> sep) s"
proof (cases "dropWhile (\<lambda>c. c \<noteq> sep) s")
  case Nil
  then have tw: "takeWhile (\<lambda>c. c \<noteq> sep) s = s"
    by (metis takeWhile_dropWhile_id append_Nil2)
  show ?thesis unfolding split1_def Nil tw by simp
next
  case (Cons a rest)
  show ?thesis unfolding split1_def Cons by simp
qed

lemma looks_like_image_iff: "looks_like_image s = looks_like_image_spec s"
  by (simp add: looks_like_image_def looks_like_image_spec_def Let_def image_exts_def
      startswith_prefix endswith_suffix hd_split1)

lemmas eval_defs =
  looks_like_image_def lower_def lower_char_def ascii_uppercase_def ascii_lowercase_def
  startswith_def endswith_def split1_def image_exts_def

subsection \<open>The walk and its candidates\<close>

lemma walk_candidates:
  fixes v :: "'n json" and items :: "(string \<times> 'n json) list" and xs :: "'n json list"
  shows "walk v urls = urls @ candidates v"
  and "walk_values items urls = urls @ candidates_values items"
  and "walk_list xs urls = urls @ candidates_list xs"
proof (induction v urls and items urls and xs urls rule: walk_walk_values_walk_list.induct)
  case (2 items urls)
  then show ?case by (auto simp: url_field_def split: option.splits json.splits) 
qed auto

lemma map_of_snd_mem: "map_of items k = Some v \<Longrightarrow> v \<in> snd ` set items"
  by (metis map_of_SomeD image_eqI snd_conv)

lemma json_strings_values_mem:
  fixes items :: "(string \<times> 'n json) list"
  shows "v \<in> snd ` set items \<Longrightarrow> set (json_strings v) \<subseteq> set (json_strings_values items)"
  by (induction items) auto

lemma url_field_subset:
  "set (url_field items) \<subseteq> {s \<in> set (json_strings_values items). looks_like_image s}"
proof -
  have "u \<in> set (json_strings_values items)"
    if "dict_get items ''url'' = Some (JString u)" for u
    using json_strings_values_mem[OF map_of_snd_mem, of items "''url''" "JString u"] that
    by (simp add: dict_get_def)
  then show ?thesis
    by (auto simp: url_field_def split: option.splits json.splits if_splits)
qed

lemma set_candidates:
  fixes v :: "'n json" and items :: "(string \<times> 'n json) list" and xs :: "'n json list"
  shows "set (candidates v) = {s \<in> set (json_strings v). looks_like_image s}"
  and "set (candidates_values items) = {s \<in> set (json_strings_values items). looks_like_image s}"
  and "set (candidates_list xs) = {s \<in> set (json_strings_list xs). looks_like_image s}"
proof (induction v and items and xs rule: candidates_candidates_values_candidates_list.induct)
  case (2 items)
  then show ?case using url_field_subset[of items] by auto
qed auto

subsection \<open>The second pass\<close>

lemma dedup_loop_keep_new: "dedup_loop urls seen deduped = deduped @ keep_new urls seen"
  by (induction urls arbitrary: seen deduped) auto

lemma set_keep_new: "set (keep_new xs seen) = set xs - seen"
  by (induction xs arbitrary: seen) auto

lemma distinct_keep_new: "distinct (keep_new xs seen)"
  by (induction xs arbitrary: seen) (auto simp: set_keep_new)

lemma keep_new_index:
  "keep_new xs seen =
     map (\<lambda>i. xs ! i) (filter (\<lambda>i. xs ! i \<notin> seen \<union> set (take i xs)) [0..<length xs])"
proof (induction xs arbitrary: seen)
  case Nil
  then show ?case by simp
next
  case (Cons x xs)
  have upt: "[0..<length (x # xs)] = 0 # map Suc [0..<length xs]"
    by (simp add: upt_conv_Cons map_Suc_upt del: upt_Suc)
  show ?case
  proof (cases "x \<in> seen")
    case True
    have "filter (\<lambda>i. xs ! i \<notin> seen \<union> set (take i xs)) [0..<length xs] =
          filter (\<lambda>i. xs ! i \<notin> seen \<and> xs ! i \<noteq> x \<and> xs ! i \<notin> set (take i xs)) [0..<length xs]"
      using True by (intro filter_cong) auto
    with True show ?thesis
      unfolding upt by (simp add: Cons filter_map comp_def)
  next
    case False
    have "filter (\<lambda>i. xs ! i \<notin> insert x seen \<union> set (take i xs)) [0..<length xs] =
          filter (\<lambda>i. xs ! i \<notin> seen \<and> xs ! i \<noteq> x \<and> xs ! i \<notin> set (take i xs)) [0..<length xs]"
      by (intro filter_cong) auto
    with False show ?thesis
      unfolding upt by (simp add: Cons filter_map comp_def)
  qed
qed

lemma keep_new_distinct_id: "distinct xs \<Longrightarrow> set xs \<inter> seen = {} \<Longrightarrow> keep_new xs seen = xs"
  by (induction xs arbitrary: seen) auto

lemma extract_keep_new: "extract_image_urls v = keep_new (candidates v) {}"
  by (simp add: extract_image_urls_def dedup_loop_keep_new walk_candidates)

lemma set_extract: "set (extract_image_urls v) = {s \<in> set (json_strings v). looks_like_image s}"
  by (simp add: extract_keep_new set_keep_new set_candidates)

lemma candidates_subvalue:
  fixes v :: "'n json" and items :: "(string \<times> 'n json) list" and xs :: "'n json list"
  shows "n \<in> set (subvalues v) \<Longrightarrow> set (candidates n) \<subseteq> set (candidates v)"
  and "n \<in> set (subvalues_values items) \<Longrightarrow> set (candidates n) \<subseteq> set (candidates_values items)"
  and "n \<in> set (subvalues_list xs) \<Longrightarrow> set (candidates n) \<subseteq> set (candidates_list xs)"
  by (induction v and items and xs rule: subvalues_subvalues_values_subvalues_list.induct) auto

lemma candidates_values_mem:
  fixes items :: "(string \<times> 'n json) list"
  shows "v \<in> snd ` set items \<Longrightarrow> set (candidates v) \<subseteq> set (candidates_values items)"
  by (induction items) auto

lemma count_list_distinct: "distinct xs \<Longrightarrow> x \<in> set xs \<Longrightarrow> count_list xs x = 1"
  by (induction xs) auto

lemma count_list_append_mem: "x \<in> set ys \<Longrightarrow> Suc (count_list xs x) \<le> count_list (xs @ ys) x"
  by (induction ys) (auto simp: count_list_0_iff)

subsection \<open>The recursion limit\<close>










subsection \<open>Strings without a query\<close>





lemma walk_values_map_snd:
  fixes items :: "(string \<times> 'n json) list"
  shows "walk_values items urls = walk_list (map snd items) urls"
  by (induction items arbitrary: urls) simp_all

subsection \<open>Paths\<close>

lemma split_acc_no_sep:
  "sep \<notin> set acc \<Longrightarrow> \<forall>x \<in> set (split_acc sep acc s). sep \<notin> set x"
proof (induction s arbitrary: acc)
  case Nil
  then show ?case by simp
next
  case (Cons c cs)
  show ?case
  proof (cases "c = sep")
    case True
    with Cons.IH[of "[]"] Cons.prems show ?thesis by simp
  next
    case False
    with Cons.IH[of "c # acc"] Cons.prems show ?thesis by simp
  qed
qed


lemma parts_Path_of_string:
  "x \<in> set (parts (Path_of_string s)) \<Longrightarrow> CHR ''/'' \<notin> set x \<and> x \<noteq> [] \<and> x \<noteq> ''.''"
  using split_acc_no_sep[of "CHR ''/''" "[]"]
  by (auto simp: Path_of_string_def split_sep_def split: prod.splits)

lemma name_Path_of_string:
  "name (Path_of_string s) \<noteq> [] \<Longrightarrow>
     CHR ''/'' \<notin> set (name (Path_of_string s)) \<and> name (Path_of_string s) \<noteq> ''.''"
  using parts_Path_of_string[of "last (parts (Path_of_string s))" s]
  by (auto simp: name_def split: if_splits)








lemma build_output_path_eq:
  "build_output_path E fs dir metadata_file url index =
     (case urlsplit_path E url of
        Inl e \<Rightarrow> Inl e
      | Inr p \<Rightarrow>
          if path_exists E fs (path_join dir (output_name metadata_file p index))
          then Inr (path_join dir
                 (alternative_name metadata_file index (output_name metadata_file p index)))
          else Inr (path_join dir (output_name metadata_file p index)))"
  by (simp add: build_output_path_def output_name_def alternative_name_def Let_def
      split: sum.splits)


lemma stem_no_slash: "CHR ''/'' \<notin> set (stem (Path_of_string s))"
proof -
  have n: "CHR ''/'' \<notin> set (name (Path_of_string s))"
    using name_Path_of_string[of s] by (cases "name (Path_of_string s) = []") auto
  have "set (stem (Path_of_string s)) \<subseteq> set (name (Path_of_string s))"
    by (auto simp: stem_def Let_def dest: in_set_takeD)
  with n show ?thesis by blast
qed

subsection \<open>The loops of main\<close>

lemma main_loop_read_failure:
  "read_metadata E fs m = Inl e \<Longrightarrow>
     main_loop E a headers (m # rest) (fs, out) =
     main_loop E a headers rest (fs, out @ [Failed_to_read_metadata m e])"
  by simp

lemma download_urls_download_failure:
  "build_output_path E fs (output_dir a) m url i = Inr dest \<Longrightarrow>
   download_image E url dest headers (timeout a) fs = (Some e, fs') \<Longrightarrow>
     download_urls E a headers m ((i, url) # rest) (fs, out) =
     download_urls E a headers m rest (fs', out @ [Failed_to_download url m e])"
  by simp

lemma download_urls_no_abort:
  assumes "\<forall>url. \<exists>p. urlsplit_path E url = Inr p"
  shows "fst (download_urls E a headers m ius st) = None"
proof (induction ius arbitrary: st)
  case Nil
  then show ?case by simp
next
  case (Cons iu ius)
  obtain i url where iu: "iu = (i, url)" by (cases iu)
  obtain fs out where st: "st = (fs, out)" by (cases st)
  from assms obtain p where p: "urlsplit_path E url = Inr p" by blast
  obtain dest where b: "build_output_path E fs (output_dir a) m url i = Inr dest"
    using p by (cases "path_exists E fs (path_join (output_dir a) (output_name m p i))")
      (simp_all add: build_output_path_eq)
  show ?case
    unfolding iu st using b Cons.IH
    by (simp split: prod.splits option.splits)
qed

lemma main_loop_no_abort:
  assumes "\<forall>url. \<exists>p. urlsplit_path E url = Inr p"
  shows "fst (main_loop E a headers ms st) = None"
proof (induction ms arbitrary: st)
  case Nil
  then show ?case by simp
next
  case (Cons m ms)
  obtain fs out where st: "st = (fs, out)" by (cases st)
  have d: "\<exists>st'. download_urls E a headers m ius (fs, out) = (None, st')" for ius
    using download_urls_no_abort[OF assms, of a headers m ius "(fs, out)"]
    by (cases "download_urls E a headers m ius (fs, out)") simp
  show ?case
  proof (cases "read_metadata E fs m")
    case (Inl e)
    then show ?thesis unfolding st using Cons.IH by simp
  next
    case (Inr payload)
    show ?thesis
    proof (cases "extract_image_urls payload = []")
      case True
      then show ?thesis unfolding st using Inr Cons.IH by simp
    next
      case False
      obtain st' where "download_urls E a headers m
          (enumerate1 (case max_per_file a of None \<Rightarrow> extract_image_urls payload
                       | Some n \<Rightarrow> slice_to (extract_image_urls payload) n)) (fs, out) = (None, st')"
        using d by blast
      then show ?thesis unfolding st using Inr False Cons.IH by (simp add: Let_def)
    qed
  qed
qed

section \<open>Properties of the predicate\<close>

text \<open>
  C2.  For every string, \<open>looks_like_image\<close> holds exactly when the lower-cased string begins
  with \<open>http\<close> and its part before the first \<open>?\<close> (all of it when there is none) ends with
  \<open>.png\<close>, \<open>.jpg\<close>, \<open>.jpeg\<close> or \<open>.webp\<close>.  So a query string is ignored, upper case is
  accepted, an extension inside the query does not count, and a string that only contains
  a URL is rejected.
\<close>

theorem looks_like_image_characterisation:
  "looks_like_image s = looks_like_image_spec s \<and>
   looks_like_image ''http://x.com/a.png?sig=abc'' \<and>
   looks_like_image ''HTTPS://X.COM/A.PNG'' \<and>
   \<not> looks_like_image ''http://x.com/a.php?img=.png'' \<and>
   \<not> looks_like_image ''see http://x.com/a.png''"
proof -
  have "looks_like_image ''http://x.com/a.png?sig=abc'' \<and>
        looks_like_image ''HTTPS://X.COM/A.PNG'' \<and>
        \<not> looks_like_image ''http://x.com/a.php?img=.png'' \<and>
        \<not> looks_like_image ''see http://x.com/a.png''"
    by (simp add: eval_defs)
  then show ?thesis by (simp add: looks_like_image_iff)
qed



section \<open>Properties of the extractor\<close>

text \<open>
  C1.  Every string of the result of \<open>extract_image_urls\<close> satisfies the predicate and is a
  string node of the input tree; a tree without string nodes gives the empty list.
\<close>

theorem extract_image_urls_sound:
  "(\<forall>s \<in> set (extract_image_urls v). looks_like_image s \<and> s \<in> set (json_strings v)) \<and>
   (json_strings v = [] \<longrightarrow> extract_image_urls v = [])"
proof -
  have "extract_image_urls v = []" if "json_strings v = []"
    using set_extract[of v] that by simp
  then show ?thesis by (simp add: set_extract)
qed

theorem extract_image_urls_sound_witness:
  "(''http://x.com/a.jpg'' \<in> set (extract_image_urls (JArray [JObject [(''images'', JArray [JObject [(''url'', JString ''http://x.com/a.jpg'')]])]] :: int json))
    \<and> looks_like_image ''http://x.com/a.jpg''
    \<and> ''http://x.com/a.jpg'' \<in> set (json_strings (JArray [JObject [(''images'', JArray [JObject [(''url'', JString ''http://x.com/a.jpg'')]])]] :: int json)))
   \<and> (json_strings (JObject [(''http://x.com/k.png'', JArray [JNumber 3, JBool True, JNull])] :: int json) = []
    \<and> extract_image_urls (JObject [(''http://x.com/k.png'', JArray [JNumber 3, JBool True, JNull])] :: int json) = [])"
proof -
  let ?v = "JArray [JObject [(''images'', JArray [JObject [(''url'', JString ''http://x.com/a.jpg'')]])]] :: int json"
  let ?w = "JObject [(''http://x.com/k.png'', JArray [JNumber 3, JBool True, JNull])] :: int json"
  have m: "''http://x.com/a.jpg'' \<in> set (extract_image_urls ?v)"
    by (simp add: extract_image_urls_def dict_get_def eval_defs)
  have e: "json_strings ?w = []" by simp
  from extract_image_urls_sound[of ?v] extract_image_urls_sound[of ?w] m e
  show ?thesis by blast
qed

text \<open>
  C3.  The result of \<open>extract_image_urls\<close> has no string twice, the second pass leaves it
  unchanged, and it consists of the candidates of the walk at the positions where a
  candidate occurs for the first time, in the order of these positions.  An object with
  two different URLs gives them in the order of its keys.
\<close>

theorem extract_image_urls_first_occurrences:
  "distinct (extract_image_urls v) \<and>
   dedup_loop (extract_image_urls v) {} [] = extract_image_urls v \<and>
   (let raw = walk v []
    in extract_image_urls v =
         map (\<lambda>i. raw ! i) (filter (\<lambda>i. raw ! i \<notin> set (take i raw)) [0..<length raw])) \<and>
   extract_image_urls
     (JObject [(''a'', JString ''http://x.com/1.png''), (''b'', JString ''http://x.com/2.png'')]) =
     [''http://x.com/1.png'', ''http://x.com/2.png'']"
proof -
  have d: "distinct (extract_image_urls v)"
    by (simp add: extract_keep_new distinct_keep_new)
  have i: "dedup_loop (extract_image_urls v) {} [] = extract_image_urls v"
    using d by (simp add: dedup_loop_keep_new keep_new_distinct_id)
  have o: "extract_image_urls v =
      map (\<lambda>i. walk v [] ! i) (filter (\<lambda>i. walk v [] ! i \<notin> set (take i (walk v []))) [0..<length (walk v [])])"
    using keep_new_index[of "candidates v" "{}"] by (simp add: extract_keep_new walk_candidates)
  have e: "extract_image_urls
     (JObject [(''a'', JString ''http://x.com/1.png''), (''b'', JString ''http://x.com/2.png'')]) =
     [''http://x.com/1.png'', ''http://x.com/2.png'']"
    by (simp add: extract_image_urls_def dict_get_def eval_defs)
  from d i o e show ?thesis by (simp add: Let_def)
qed

text \<open>
  C4.  For an object node, anywhere in the payload, whose key \<open>url\<close> holds a string that
  satisfies the predicate: the call of \<open>walk\<close> on the object records the string before it
  descends into the values, the descent records it again, and the result of
  \<open>extract_image_urls\<close> on the payload has it exactly once.
\<close>

theorem url_field_recorded_once:
  assumes node: "JObject items \<in> set (subvalues v)"
    and url: "dict_get items ''url'' = Some (JString u)"
    and img: "looks_like_image u"
  shows "walk (JObject items) urls = walk_values items (urls @ [u]) \<and>
         2 \<le> count_list (walk (JObject items) []) u \<and>
         count_list (extract_image_urls v) u = 1"
proof -
  have w: "walk (JObject items) urls = walk_values items (urls @ [u])"
    using url img by simp
  have "JString u \<in> snd ` set items"
    using url by (simp add: dict_get_def map_of_snd_mem)
  from candidates_values_mem[OF this] img
  have "u \<in> set (candidates_values items)" by simp
  then have two: "2 \<le> count_list (walk (JObject items) []) u"
    using count_list_append_mem[of u "candidates_values items" "[u]"] url img
    by (simp add: walk_candidates url_field_def)
  have "u \<in> set (candidates (JObject items))"
    using url img by (simp add: url_field_def)
  with candidates_subvalue(1)[OF node] have "u \<in> set (candidates v)" by blast
  then have "u \<in> set (extract_image_urls v)"
    by (simp add: extract_keep_new set_keep_new)
  then have one: "count_list (extract_image_urls v) u = 1"
    by (simp add: count_list_distinct extract_keep_new distinct_keep_new)
  from w two one show ?thesis by simp
qed

theorem url_field_recorded_once_witness:
  "JObject [(''url'', JString ''http://x.com/a.png''), (''other'', JString ''http://x.com/a.png'')]
     \<in> set (subvalues (JObject [(''url'', JString ''http://x.com/a.png''),
                                  (''other'', JString ''http://x.com/a.png'')] :: int json)) \<and>
   dict_get [(''url'', JString ''http://x.com/a.png''), (''other'', JString ''http://x.com/a.png'' :: int json)]
     ''url'' = Some (JString ''http://x.com/a.png'') \<and>
   looks_like_image ''http://x.com/a.png'' \<and>
   count_list
     (extract_image_urls (JObject [(''url'', JString ''http://x.com/a.png''),
                                   (''other'', JString ''http://x.com/a.png'')] :: int json))
     ''http://x.com/a.png'' = 1"
proof -
  let ?items = "[(''url'', JString ''http://x.com/a.png''),
                 (''other'', JString ''http://x.com/a.png'')] :: (string \<times> int json) list"
  have node: "JObject ?items \<in> set (subvalues (JObject ?items))" by simp
  have url: "dict_get ?items ''url'' = Some (JString ''http://x.com/a.png'')"
    by (simp add: dict_get_def)
  have img: "looks_like_image ''http://x.com/a.png''" by (simp add: eval_defs)
  from url_field_recorded_once[OF node url img, of "[]"] node url img
  show ?thesis by blast
qed




text \<open>
  C9.  A string that occurs in the tree as an object key but not as a string node is not
  in the result of \<open>extract_image_urls\<close>, whether or not it satisfies the predicate: the
  loop over an object visits its values only.
\<close>

theorem object_keys_not_extracted:
  "(k \<in> set (json_keys v) \<and> k \<notin> set (json_strings v) \<longrightarrow> k \<notin> set (extract_image_urls v)) \<and>
   walk_values items urls = walk_list (map snd items) urls"
  by (simp add: set_extract walk_values_map_snd)

theorem object_keys_not_extracted_witness:
  "looks_like_image ''http://x.com/k.png'' \<and>
   ''http://x.com/k.png'' \<in> set (json_keys (JObject [(''http://x.com/k.png'', JArray [JNumber 1, JString ''v''])] :: int json)) \<and>
   ''http://x.com/k.png'' \<notin> set (json_strings (JObject [(''http://x.com/k.png'', JArray [JNumber 1, JString ''v''])] :: int json)) \<and>
   ''http://x.com/k.png'' \<notin> set (extract_image_urls (JObject [(''http://x.com/k.png'', JArray [JNumber 1, JString ''v''])] :: int json))"
proof -
  have "looks_like_image ''http://x.com/k.png''" by (simp add: eval_defs)
  then show ?thesis
    using object_keys_not_extracted[of "''http://x.com/k.png''"
        "JObject [(''http://x.com/k.png'', JArray [JNumber 1, JString ''v''])] :: int json" "[]" "[]"]
    by simp
qed

section \<open>Properties of the download tool\<close>




text \<open>
  C10.  When the path of the first name exists, \<open>build_output_path\<close> returns the path of
  \<open><stem>_<index>_<name>\<close> whatever else exists: the result is the same in every file
  system in which the first path exists, so also in one where the second path exists
  too, and the download that follows in \<open>main\<close> is given that path as its destination.
\<close>

theorem build_output_path_single_check:
  assumes "urlsplit_path E url = Inr p"
    and "path_exists E fs (path_join (output_dir a) (output_name m p i))"
  shows "build_output_path E fs (output_dir a) m url i =
           Inr (path_join (output_dir a) (alternative_name m i (output_name m p i))) \<and>
         (\<forall>fs'. path_exists E fs' (path_join (output_dir a) (output_name m p i)) \<longrightarrow>
            build_output_path E fs' (output_dir a) m url i =
            build_output_path E fs (output_dir a) m url i) \<and>
         download_urls E a headers m ((i, url) # rest) (fs, out) =
           (case download_image E url
                   (path_join (output_dir a) (alternative_name m i (output_name m p i)))
                   headers (timeout a) fs of
              (Some e, fs') \<Rightarrow>
                download_urls E a headers m rest (fs', out @ [Failed_to_download url m e])
            | (None, fs') \<Rightarrow>
                download_urls E a headers m rest
                  (fs', out @ [Saved url
                     (path_join (output_dir a) (alternative_name m i (output_name m p i)))]))"
  using assms by (simp add: build_output_path_eq)

theorem build_output_path_single_check_witness:
  "urlsplit_path (example_env [] []) ''https://cdn.example/img/cat.jpg?sig=1'' = Inr ''/img/cat.jpg'' \<and>
   path_exists (example_env [] [])
     [Path [] [''out'', ''cat.jpg''], Path [] [''out'', ''run7_3_cat.jpg'']]
     (path_join (Path [] [''out'']) (output_name (Path [] [''run7.json'']) ''/img/cat.jpg'' 3)) \<and>
   build_output_path (example_env [] [])
     [Path [] [''out'', ''cat.jpg''], Path [] [''out'', ''run7_3_cat.jpg'']]
     (Path [] [''out'']) (Path [] [''run7.json'']) ''https://cdn.example/img/cat.jpg?sig=1'' 3 =
     Inr (Path [] [''out'', ''run7_3_cat.jpg'']) \<and>
   path_exists (example_env [] [])
     [Path [] [''out'', ''cat.jpg''], Path [] [''out'', ''run7_3_cat.jpg'']]
     (Path [] [''out'', ''run7_3_cat.jpg''])"
proof -
  let ?E = "example_env [] [] :: (path list, int) env"
  let ?fs = "[Path [] [''out'', ''cat.jpg''], Path [] [''out'', ''run7_3_cat.jpg'']]"
  let ?a = "\<lparr>output_dir = Path [] [''out''], timeout = 60, max_per_file = None\<rparr>"
  let ?m = "Path [] [''run7.json'']"
  have d: "output_dir ?a = Path [] [''out'']" by simp
  have u: "urlsplit_path ?E ''https://cdn.example/img/cat.jpg?sig=1'' = Inr ''/img/cat.jpg''"
    by code_simp
  have e: "path_exists ?E ?fs (path_join (output_dir ?a) (output_name ?m ''/img/cat.jpg'' 3))"
    by code_simp
  have j: "path_join (Path [] [''out'']) (alternative_name ?m 3 (output_name ?m ''/img/cat.jpg'' 3)) =
           Path [] [''out'', ''run7_3_cat.jpg'']"
    by code_simp
  have x: "path_exists ?E ?fs (Path [] [''out'', ''run7_3_cat.jpg''])" by code_simp
  from build_output_path_single_check[OF u e, of "[]" "[]" "[]"]
  have b: "build_output_path ?E ?fs (output_dir ?a) ?m ''https://cdn.example/img/cat.jpg?sig=1'' 3 =
           Inr (path_join (output_dir ?a) (alternative_name ?m 3 (output_name ?m ''/img/cat.jpg'' 3)))"
    by (rule conjunct1)
  from b u e x show ?thesis unfolding d j by simp
qed

text \<open>
  C8.  The handlers of \<open>main\<close> cover the reading of a metadata file and the download of a
  URL (\<open>main_loop_read_failure\<close>, \<open>download_urls_download_failure\<close>), and no exception
  leaves the loop when \<open>urlsplit\<close> accepts every URL (\<open>main_loop_no_abort\<close>).  The call of
  \<open>build_output_path\<close> is outside the \<open>try\<close>: the string \<open>http://[x/a.png\<close> satisfies the
  predicate, \<open>urlsplit\<close> refuses it, and with it in the first of two metadata files the
  program ends with the \<open>ValueError\<close>, having printed nothing and never read the second
  file, which alone is processed to the end.
\<close>

theorem main_loop_aborts_on_unparsable_url:
  "extract_image_urls (JObject [(''images'', JArray [JString ''http://[x/a.png''])] :: int json) =
     [''http://[x/a.png''] \<and>
   main_loop
     (example_env
        [(Path [] [''m1.json''], Some (JObject [(''images'', JArray [JString ''http://[x/a.png''])])),
         (Path [] [''m2.json''], Some (JObject [(''url'', JString ''http://x.com/b.png'')]))] [])
     \<lparr>output_dir = Path [] [''out''], timeout = 60, max_per_file = None\<rparr> []
     [Path [] [''m1.json''], Path [] [''m2.json'']] ([], []) =
     (Some (ValueError ''Invalid IPv6 URL''), [], []) \<and>
   main_loop
     (example_env
        [(Path [] [''m1.json''], Some (JObject [(''images'', JArray [JString ''http://[x/a.png''])])),
         (Path [] [''m2.json''], Some (JObject [(''url'', JString ''http://x.com/b.png'')]))] [])
     \<lparr>output_dir = Path [] [''out''], timeout = 60, max_per_file = None\<rparr> []
     [Path [] [''m2.json'']] ([], []) =
     (None, [Path [] [''out'', ''b.png'']],
      [Saved ''http://x.com/b.png'' (Path [] [''out'', ''b.png''])])"
  by code_simp

end
